theory Spec2Isabelle
  imports Complex_Main "HOL-Library.Word"
begin

section \<open>JavaScript values\<close>

text \<open>
  A JavaScript string is a sequence of 16-bit code units. String literals of the source
  are written \<open>js ''...''\<close>.
\<close>

type_synonym code_unit = "16 word"
type_synonym jsstring = "code_unit list"

definition js :: "string \<Rightarrow> jsstring" where
  "js s = map (\<lambda>c. of_nat (of_char c)) s"

text \<open>
  An array element, the result of \<open>pop()\<close> and of an index read is either a value or
  \<open>undefined\<close>. An array is a list in index order: \<open>push\<close> appends at the end,
  \<open>pop\<close> takes from the end and yields \<open>undefined\<close> on the empty array, which it
  leaves empty.
\<close>

datatype 'a jsval = Undefined | Val 'a

type_synonym 'a array = "'a jsval list"
type_synonym token = "jsstring jsval"

definition tok :: "string \<Rightarrow> token" where
  "tok s = Val (js s)"

definition pop :: "'a array \<Rightarrow> 'a jsval \<times> 'a array" where
  "pop xs = (if xs = [] then (Undefined, []) else (last xs, butlast xs))"

section \<open>The tokenizer\<close>

text \<open>
  \<open>String.prototype.trim\<close> removes the code units of WhiteSpace and LineTerminator
  (ECMA-262) from both ends.
\<close>

definition isWhiteSpace :: "code_unit \<Rightarrow> bool" where
  "isWhiteSpace c \<longleftrightarrow>
     c \<in> {0x9, 0xA, 0xB, 0xC, 0xD, 0x20, 0xA0, 0x1680, 0x2028, 0x2029, 0x202F, 0x205F,
          0x3000, 0xFEFF}
     \<or> (0x2000 \<le> c \<and> c \<le> 0x200A)"

definition trim :: "jsstring \<Rightarrow> jsstring" where
  "trim s = rev (dropWhile isWhiteSpace (rev (dropWhile isWhiteSpace s)))"

text \<open>The character class \<^verbatim>\<open>[+\-*^\/()]\<close> of the regular expression.\<close>

definition isSeparator :: "code_unit \<Rightarrow> bool" where
  "isSeparator c \<longleftrightarrow> c \<in> set (js ''+-*^/()'')"

definition space :: code_unit where
  "space = 0x20"

text \<open>\<^verbatim>\<open>expression.replace(/([+\-*^\/()])/g, ' $1 ')\<close>\<close>

fun replaceSeparators :: "jsstring \<Rightarrow> jsstring" where
  "replaceSeparators [] = []"
| "replaceSeparators (c # cs) =
     (if isSeparator c then [space, c, space] @ replaceSeparators cs
      else c # replaceSeparators cs)"

text \<open>
  \<^verbatim>\<open>expression.split(' ')\<close>: the fragments between single spaces, empty ones
  included; the empty string splits into one empty fragment.
\<close>

fun split :: "jsstring \<Rightarrow> jsstring list" where
  "split [] = [[]]"
| "split (c # cs) =
     (if c = space then [] # split cs
      else (case split cs of [] \<Rightarrow> [[c]] | w # ws \<Rightarrow> (c # w) # ws))"

definition tokenizeExpression :: "jsstring \<Rightarrow> token list" where
  "tokenizeExpression expression =
     map Val (filter (\<lambda>token. trim token \<noteq> []) (split (replaceSeparators expression)))"

section \<open>Numbers\<close>

text \<open>
  A JavaScript number is an IEEE 754 double: a finite value, one of the two zeros, one of
  the two infinities, or not-a-number. \<open>Fin q\<close> is the finite double whose value is
  the rational \<open>q\<close>; \<open>Fin 0\<close> is \<open>+0\<close> and \<open>NegZero\<close> is \<open>-0\<close>.
\<close>

datatype number = Fin rat | NegZero | PosInf | NegInf | NaN

text \<open>The mathematical value of a finite number (both zeros have the value 0).\<close>

fun mv :: "number \<Rightarrow> rat" where
  "mv (Fin q) = q"
| "mv _ = 0"

fun isZero :: "number \<Rightarrow> bool" where
  "isZero (Fin q) = (q = 0)"
| "isZero NegZero = True"
| "isZero _ = False"

fun isInfinity :: "number \<Rightarrow> bool" where
  "isInfinity PosInf = True"
| "isInfinity NegInf = True"
| "isInfinity _ = False"

text \<open>The sign bit of a number that is not \<open>NaN\<close>.\<close>

fun negative :: "number \<Rightarrow> bool" where
  "negative (Fin q) = (q < 0)"
| "negative NegZero = True"
| "negative NegInf = True"
| "negative _ = False"

definition signedZero :: "bool \<Rightarrow> number" where
  "signedZero neg = (if neg then NegZero else Fin 0)"

definition signedInfinity :: "bool \<Rightarrow> number" where
  "signedInfinity neg = (if neg then NegInf else PosInf)"

fun unaryMinus :: "number \<Rightarrow> number" where
  "unaryMinus (Fin q) = (if q = 0 then NegZero else Fin (- q))"
| "unaryMinus NegZero = Fin 0"
| "unaryMinus PosInf = NegInf"
| "unaryMinus NegInf = PosInf"
| "unaryMinus NaN = NaN"

subsection \<open>Rounding\<close>

text \<open>
  The number value for a real \<open>x\<close>: the double nearest to \<open>x\<close>, the one with the
  even significand when two are equally near. A double has 53 significant bits and its
  least exponent is \<open>-1022\<close>, so near \<open>x\<close> the doubles are the multiples of
  \<open>2 ^ (e - 52)\<close>, where \<open>2 ^ e \<le> \<bar>x\<bar> < 2 ^ (e + 1)\<close> and \<open>e\<close> is at least
  \<open>-1022\<close>. A result of magnitude \<open>2 ^ 1024\<close>, written \<open>(2 ^ 32) ^ 32\<close>, is an
  infinity; a result 0 keeps the sign of \<open>x\<close>.
\<close>

definition pow2 :: "int \<Rightarrow> rat" where
  "pow2 e = (if 0 \<le> e then 2 ^ nat e else 1 / 2 ^ nat (- e))"

function bitLength :: "int \<Rightarrow> int" where
  "bitLength n = (if n \<le> 0 then 0 else 1 + bitLength (n div 2))"
  by pat_completeness auto
termination
  by (relation "measure nat") auto

declare bitLength.simps [simp del]

text \<open>For \<open>0 < x\<close>, the integer \<open>e\<close> with \<open>2 ^ e \<le> x < 2 ^ (e + 1)\<close>.\<close>

definition floorLog2 :: "rat \<Rightarrow> int" where
  "floorLog2 x = (if 1 \<le> x then bitLength \<lfloor>x\<rfloor> - 1 else - bitLength (\<lceil>1 / x\<rceil> - 1))"

definition roundHalfEven :: "rat \<Rightarrow> int" where
  "roundHalfEven m =
     (let f = \<lfloor>m\<rfloor>; r = m - of_int f
      in if r < 1 / 2 then f else if 1 / 2 < r then f + 1 else if even f then f else f + 1)"

definition roundToDouble :: "rat \<Rightarrow> number" where
  "roundToDouble x =
     (if x = 0 then Fin 0
      else
        let a = \<bar>x\<bar>;
            e = max (floorLog2 a) (- 1022);
            u = pow2 (e - 52);
            v = of_int (roundHalfEven (a / u)) * u
        in if (2 ^ 32) ^ 32 \<le> v then signedInfinity (x < 0)
           else if v = 0 then signedZero (x < 0)
           else Fin (if x < 0 then - v else v))"

subsection \<open>Arithmetic\<close>

text \<open>Operands are converted by ToNumeric: \<open>undefined\<close> becomes \<open>NaN\<close>.\<close>

fun toNumeric :: "number jsval \<Rightarrow> number" where
  "toNumeric Undefined = NaN"
| "toNumeric (Val n) = n"

text \<open>\<open>x + y\<close> (Number::add).\<close>

definition num_add :: "number \<Rightarrow> number \<Rightarrow> number" where
  "num_add x y =
     (if x = NaN \<or> y = NaN then NaN
      else if x = PosInf \<and> y = NegInf then NaN
      else if x = NegInf \<and> y = PosInf then NaN
      else if isInfinity x then x
      else if isInfinity y then y
      else if x = NegZero \<and> y = NegZero then NegZero
      else roundToDouble (mv x + mv y))"

text \<open>\<open>x - y\<close> (Number::subtract) is \<open>x + (-y)\<close>.\<close>

definition num_sub :: "number \<Rightarrow> number \<Rightarrow> number" where
  "num_sub x y = num_add x (unaryMinus y)"

text \<open>
  \<open>x * y\<close>: the sign of the product is negative when exactly one operand is negative;
  an infinity times a zero is \<open>NaN\<close>.
\<close>

definition num_mul :: "number \<Rightarrow> number \<Rightarrow> number" where
  "num_mul x y =
     (if x = NaN \<or> y = NaN then NaN
      else if isInfinity x \<and> isZero y \<or> isZero x \<and> isInfinity y then NaN
      else if isInfinity x \<or> isInfinity y then signedInfinity (negative x \<noteq> negative y)
      else if isZero x \<or> isZero y then signedZero (negative x \<noteq> negative y)
      else roundToDouble (mv x * mv y))"

text \<open>
  \<open>x / y\<close>: an infinity by an infinity and a zero by a zero are \<open>NaN\<close>; any other
  division by a zero is an infinity, and it is no error.
\<close>

definition num_div :: "number \<Rightarrow> number \<Rightarrow> number" where
  "num_div x y =
     (if x = NaN \<or> y = NaN then NaN
      else if isInfinity x \<and> isInfinity y then NaN
      else if isInfinity x then signedInfinity (negative x \<noteq> negative y)
      else if isInfinity y then signedZero (negative x \<noteq> negative y)
      else if isZero x \<and> isZero y then NaN
      else if isZero x then signedZero (negative x \<noteq> negative y)
      else if isZero y then signedInfinity (negative x \<noteq> negative y)
      else roundToDouble (mv x / mv y))"

text \<open>
  \<open>base ** exponent\<close> (Number::exponentiate). ECMA-262 fixes the result for a
  \<open>NaN\<close>, zero or infinite operand and for a negative base with a fractional
  exponent; for the other operands the result is an implementation-approximated value.
  The engines compute an integer raised to a positive integer power exactly when the
  power is an integer a double holds, which is the case up to \<open>2 ^ 53\<close>; this is
  taken over. Every other approximated value is left to the engine: it is the parameter
  \<open>approx\<close> of the evaluator, which may be any function.
\<close>

type_synonym approximation = "rat \<Rightarrow> rat \<Rightarrow> number"

definition isIntegral :: "rat \<Rightarrow> bool" where
  "isIntegral q \<longleftrightarrow> of_int \<lfloor>q\<rfloor> = q"

fun isPositive :: "number \<Rightarrow> bool" where
  "isPositive (Fin q) = (0 < q)"
| "isPositive PosInf = True"
| "isPositive _ = False"

fun isOddIntegral :: "number \<Rightarrow> bool" where
  "isOddIntegral (Fin q) = (isIntegral q \<and> odd \<lfloor>q\<rfloor>)"
| "isOddIntegral _ = False"

definition approximated :: "approximation \<Rightarrow> rat \<Rightarrow> rat \<Rightarrow> number" where
  "approximated approx b e =
     (if isIntegral b \<and> isIntegral e \<and> 0 < e \<and> \<bar>b ^ nat \<lfloor>e\<rfloor>\<bar> \<le> 2 ^ 53
      then Fin (b ^ nat \<lfloor>e\<rfloor>)
      else approx b e)"

definition num_pow :: "approximation \<Rightarrow> number \<Rightarrow> number \<Rightarrow> number" where
  "num_pow approx base exponent =
     (if exponent = NaN then NaN
      else if isZero exponent then Fin 1
      else if base = NaN then NaN
      else if base = PosInf then (if isPositive exponent then PosInf else Fin 0)
      else if base = NegInf then
        (if isPositive exponent then (if isOddIntegral exponent then NegInf else PosInf)
         else (if isOddIntegral exponent then NegZero else Fin 0))
      else if base = Fin 0 then (if isPositive exponent then Fin 0 else PosInf)
      else if base = NegZero then
        (if isPositive exponent then (if isOddIntegral exponent then NegZero else Fin 0)
         else (if isOddIntegral exponent then NegInf else PosInf))
      else if exponent = PosInf then
        (if 1 < \<bar>mv base\<bar> then PosInf else if \<bar>mv base\<bar> = 1 then NaN else Fin 0)
      else if exponent = NegInf then
        (if 1 < \<bar>mv base\<bar> then Fin 0 else if \<bar>mv base\<bar> = 1 then NaN else PosInf)
      else if mv base < 0 \<and> \<not> isIntegral (mv exponent) then NaN
      else approximated approx (mv base) (mv exponent))"

subsection \<open>Strings as numbers\<close>

text \<open>
  \<open>isNaN(token)\<close> and \<open>Number(token)\<close> convert the string by StringToNumber
  (ECMA-262): white space around the literal is skipped, the empty string is 0, and the
  literal is a signed decimal literal (digits, a fraction, an exponent, or
  \<open>Infinity\<close>) or an unsigned binary, octal or hexadecimal integer. A string of any
  other form is \<open>NaN\<close>.
\<close>

definition isDigit :: "code_unit \<Rightarrow> bool" where
  "isDigit c \<longleftrightarrow> 0x30 \<le> c \<and> c \<le> 0x39"

definition isHexDigit :: "code_unit \<Rightarrow> bool" where
  "isHexDigit c \<longleftrightarrow> isDigit c \<or> (0x41 \<le> c \<and> c \<le> 0x46) \<or> (0x61 \<le> c \<and> c \<le> 0x66)"

definition isDecimalDigits :: "jsstring \<Rightarrow> bool" where
  "isDecimalDigits s \<longleftrightarrow> s \<noteq> [] \<and> list_all isDigit s"

definition isSign :: "code_unit \<Rightarrow> bool" where
  "isSign c \<longleftrightarrow> c = 0x2B \<or> c = 0x2D"

definition isSignedInteger :: "jsstring \<Rightarrow> bool" where
  "isSignedInteger s \<longleftrightarrow>
     (case s of [] \<Rightarrow> False
      | c # r \<Rightarrow> if isSign c then isDecimalDigits r else isDecimalDigits s)"

definition isExponentPartOpt :: "jsstring \<Rightarrow> bool" where
  "isExponentPartOpt s \<longleftrightarrow>
     (case s of [] \<Rightarrow> True
      | c # r \<Rightarrow> (c = 0x65 \<or> c = 0x45) \<and> isSignedInteger r)"

definition isStrUnsignedDecimalLiteral :: "jsstring \<Rightarrow> bool" where
  "isStrUnsignedDecimalLiteral s \<longleftrightarrow>
     s = js ''Infinity'' \<or>
     (let ip = takeWhile isDigit s; r = dropWhile isDigit s in
        case r of
          [] \<Rightarrow> ip \<noteq> []
        | c # r' \<Rightarrow>
            if c = 0x2E then
              (let fp = takeWhile isDigit r'; r'' = dropWhile isDigit r' in
                 (ip \<noteq> [] \<or> fp \<noteq> []) \<and> isExponentPartOpt r'')
            else ip \<noteq> [] \<and> isExponentPartOpt r)"

definition isStrDecimalLiteral :: "jsstring \<Rightarrow> bool" where
  "isStrDecimalLiteral s \<longleftrightarrow>
     (case s of [] \<Rightarrow> False
      | c # r \<Rightarrow>
          if isSign c then isStrUnsignedDecimalLiteral r else isStrUnsignedDecimalLiteral s)"

definition isNonDecimalIntegerLiteral :: "jsstring \<Rightarrow> bool" where
  "isNonDecimalIntegerLiteral s \<longleftrightarrow>
     (case s of
        z # x # ds \<Rightarrow>
          z = 0x30 \<and> ds \<noteq> [] \<and>
          ((x = 0x62 \<or> x = 0x42) \<and> list_all (\<lambda>d. d = 0x30 \<or> d = 0x31) ds
           \<or> (x = 0x6F \<or> x = 0x4F) \<and> list_all (\<lambda>d. 0x30 \<le> d \<and> d \<le> 0x37) ds
           \<or> (x = 0x78 \<or> x = 0x58) \<and> list_all isHexDigit ds)
      | _ \<Rightarrow> False)"

definition isStringNumericLiteral :: "jsstring \<Rightarrow> bool" where
  "isStringNumericLiteral s \<longleftrightarrow>
     (let t = trim s in t = [] \<or> isStrDecimalLiteral t \<or> isNonDecimalIntegerLiteral t)"

text \<open>
  The value of a literal is the number value for its mathematical value. (For a literal
  of more than 20 significant digits ECMA-262 lets the engine round the digits beyond
  the 20th first; the engines do not.)
\<close>

definition digitValue :: "code_unit \<Rightarrow> int" where
  "digitValue c =
     (if isDigit c then uint c - 0x30
      else if 0x41 \<le> c \<and> c \<le> 0x46 then uint c - 0x37
      else uint c - 0x57)"

definition digitsValue :: "int \<Rightarrow> jsstring \<Rightarrow> int" where
  "digitsValue radix s = foldl (\<lambda>n c. radix * n + digitValue c) 0 s"

definition signedIntegerValue :: "jsstring \<Rightarrow> int" where
  "signedIntegerValue s =
     (case s of [] \<Rightarrow> 0
      | c # r \<Rightarrow>
          if c = 0x2D then - digitsValue 10 r
          else if c = 0x2B then digitsValue 10 r
          else digitsValue 10 s)"

definition pow10 :: "int \<Rightarrow> rat" where
  "pow10 e = (if 0 \<le> e then 10 ^ nat e else 1 / 10 ^ nat (- e))"

definition unsignedDecimalValue :: "jsstring \<Rightarrow> number" where
  "unsignedDecimalValue s =
     (if s = js ''Infinity'' then PosInf
      else
        let ip = takeWhile isDigit s;
            r = dropWhile isDigit s;
            dot = (r \<noteq> [] \<and> hd r = 0x2E);
            fp = (if dot then takeWhile isDigit (tl r) else []);
            x = (if dot then dropWhile isDigit (tl r) else r);
            ex = (if x = [] then 0 else signedIntegerValue (tl x))
        in roundToDouble
             ((of_int (digitsValue 10 ip) + of_int (digitsValue 10 fp) / 10 ^ length fp)
              * pow10 ex))"

definition nonDecimalValue :: "jsstring \<Rightarrow> number" where
  "nonDecimalValue s =
     (let x = hd (tl s);
          radix = (if x = 0x62 \<or> x = 0x42 then 2 else if x = 0x6F \<or> x = 0x4F then 8 else 16)
      in roundToDouble (of_int (digitsValue radix (tl (tl s)))))"

definition stringToNumber :: "jsstring \<Rightarrow> number" where
  "stringToNumber s =
     (let t = trim s in
        if t = [] then Fin 0
        else if isNonDecimalIntegerLiteral t then nonDecimalValue t
        else if isStrDecimalLiteral t then
          (if hd t = 0x2D then unaryMinus (unsignedDecimalValue (tl t))
           else if hd t = 0x2B then unsignedDecimalValue (tl t)
           else unsignedDecimalValue t)
        else NaN)"

fun isNaN :: "token \<Rightarrow> bool" where
  "isNaN Undefined = True"
| "isNaN (Val s) = (\<not> isStringNumericLiteral s)"

fun Number :: "token \<Rightarrow> number" where
  "Number Undefined = NaN"
| "Number (Val s) = stringToNumber s"

section \<open>Operators\<close>

definition operators :: "token list" where
  "operators = map tok [''+'', ''-'', ''*'', ''/'', ''^'']"

text \<open>
  A property read of \<open>operatorPrecendence\<close>: a key that is not an operator yields no
  number (\<open>undefined\<close>, or a member of \<open>Object.prototype\<close>), and \<open>>=\<close> with such an
  operand is false.
\<close>

definition operatorPrecendence :: "token \<Rightarrow> nat option" where
  "operatorPrecendence t =
     map_of [(tok ''+'', 1), (tok ''-'', 1), (tok ''*'', 2), (tok ''/'', 2), (tok ''^'', 3)] t"

fun geq :: "nat option \<Rightarrow> nat option \<Rightarrow> bool" where
  "geq (Some a) (Some b) = (a \<ge> b)"
| "geq _ _ = False"

definition isOperator :: "token \<Rightarrow> bool" where
  "isOperator char \<longleftrightarrow> char \<in> set operators"

section \<open>The postfix evaluator\<close>

text \<open>
  The \<open>for\<close> loop of \<open>evaluateExpression\<close> over the tokens, with the evaluation
  stack. An operator pops \<open>num1\<close> and then \<open>num2\<close>, either of which is
  \<open>undefined\<close> when the stack is empty, and pushes \<open>num2 op num1\<close>. A token that
  is neither numeric nor an operator is skipped.
\<close>

fun evalLoop :: "approximation \<Rightarrow> token list \<Rightarrow> number array \<Rightarrow> number array" where
  "evalLoop approx [] evalStack = evalStack"
| "evalLoop approx (t # expression) evalStack =
     (if \<not> isNaN t then evalLoop approx expression (evalStack @ [Val (Number t)])
      else if isOperator t then
        (let num1 = toNumeric (fst (pop evalStack));
             s1 = snd (pop evalStack);
             num2 = toNumeric (fst (pop s1));
             s2 = snd (pop s1)
         in evalLoop approx expression
              (if t = tok ''+'' then s2 @ [Val (num_add num2 num1)]
               else if t = tok ''-'' then s2 @ [Val (num_sub num2 num1)]
               else if t = tok ''*'' then s2 @ [Val (num_mul num2 num1)]
               else if t = tok ''/'' then s2 @ [Val (num_div num2 num1)]
               else if t = tok ''^'' then s2 @ [Val (num_pow approx num2 num1)]
               else s2))
      else evalLoop approx expression evalStack)"

text \<open>\<^verbatim>\<open>return evalStack[0]\<close>: the bottom of the stack, \<open>undefined\<close> when it is empty.\<close>

definition evaluateExpression :: "approximation \<Rightarrow> token list \<Rightarrow> number jsval" where
  "evaluateExpression approx expression =
     (case evalLoop approx expression [] of [] \<Rightarrow> Undefined | v # _ \<Rightarrow> v)"

section \<open>The infix-to-postfix converter\<close>

text \<open>
  The loop of the \<open>)\<close> branch: it pushes the popped value to the output queue and
  pops again until the popped value is \<open>(\<close>. It has no test for the empty stack, so
  it may run forever: not returning is \<open>None\<close>.
\<close>

partial_function (option) popToParen ::
  "token \<Rightarrow> token list \<Rightarrow> token list \<Rightarrow> (token list \<times> token list) option" where
  "popToParen currentOperator operationStack outputQueue =
     (if currentOperator \<noteq> tok ''('' then
        popToParen (fst (pop operationStack)) (snd (pop operationStack))
          (outputQueue @ [currentOperator])
      else Some (operationStack, outputQueue))"

declare popToParen.simps [code]

text \<open>
  The loop of the operator branch: while the stack is not empty and its top has a
  precedence greater than or equal to the token's, the top moves to the output queue.
\<close>

function popHigher :: "token \<Rightarrow> token list \<Rightarrow> token list \<Rightarrow> token list \<times> token list" where
  "popHigher token operationStack outputQueue =
     (if operationStack \<noteq> [] \<and>
         geq (operatorPrecendence (last operationStack)) (operatorPrecendence token)
      then popHigher token (butlast operationStack) (outputQueue @ [last operationStack])
      else (operationStack, outputQueue))"
  by pat_completeness auto
termination
  by (relation "measure (\<lambda>(t, s, q). length s)") auto

declare popHigher.simps [simp del]

text \<open>The main loop: each token is shifted off the front of the expression.\<close>

fun shiftLoop :: "token list \<Rightarrow> token list \<Rightarrow> token list \<Rightarrow> (token list \<times> token list) option" where
  "shiftLoop [] operationStack outputQueue = Some (operationStack, outputQueue)"
| "shiftLoop (token # expression) operationStack outputQueue =
     (if \<not> isNaN token then shiftLoop expression operationStack (outputQueue @ [token])
      else if token = tok ''('' then shiftLoop expression (operationStack @ [token]) outputQueue
      else if token = tok '')'' then
        (case popToParen (fst (pop operationStack)) (snd (pop operationStack)) outputQueue of
           None \<Rightarrow> None
         | Some (s, q) \<Rightarrow> shiftLoop expression s q)
      else if isOperator token then
        (case popHigher token operationStack outputQueue of
           (s, q) \<Rightarrow> shiftLoop expression (s @ [token]) q)
      else shiftLoop expression operationStack outputQueue)"

text \<open>The final loop: everything left on the stack moves to the output queue.\<close>

function drain :: "token list \<Rightarrow> token list \<Rightarrow> token list" where
  "drain operationStack outputQueue =
     (if operationStack \<noteq> [] then
        drain (butlast operationStack) (outputQueue @ [last operationStack])
      else outputQueue)"
  by pat_completeness auto
termination
  by (relation "measure (\<lambda>(s, q). length s)") auto

declare drain.simps [simp del]

definition toPostfix :: "token list \<Rightarrow> token list option" where
  "toPostfix expression =
     (case shiftLoop expression [] [] of
        None \<Rightarrow> None
      | Some (s, q) \<Rightarrow> Some (drain s q))"

section \<open>Shapes of input\<close>

text \<open>
  \<open>closingMatched e depth\<close>: reading the tokens \<open>e\<close> from the left with
  \<open>depth\<close> parentheses open, every \<open>)\<close> finds a \<open>(\<close> that is still open.
  Opening parentheses may stay open.
\<close>

fun closingMatched :: "token list \<Rightarrow> nat \<Rightarrow> bool" where
  "closingMatched [] depth = True"
| "closingMatched (t # e) depth =
     (if t = tok ''('' then closingMatched e (Suc depth)
      else if t = tok '')'' then 0 < depth \<and> closingMatched e (depth - 1)
      else closingMatched e depth)"

text \<open>
  The tokens of an expression: an operand is a string without space and without
  separator character that is not white space only; a separator token is one separator
  character. A list of tokens is \<open>separated\<close> when no two operands are adjacent, so
  that writing the tokens without spaces between them (\<open>concat\<close>) does not merge two
  of them. \<open>spaced\<close> writes them with one space between neighbours.
\<close>

definition isOperandToken :: "jsstring \<Rightarrow> bool" where
  "isOperandToken w \<longleftrightarrow>
     (\<forall>c\<in>set w. c \<noteq> space \<and> \<not> isSeparator c) \<and> (\<exists>c\<in>set w. \<not> isWhiteSpace c)"

definition isSeparatorToken :: "jsstring \<Rightarrow> bool" where
  "isSeparatorToken w \<longleftrightarrow> (case w of [c] \<Rightarrow> isSeparator c | _ \<Rightarrow> False)"

fun separated :: "jsstring list \<Rightarrow> bool" where
  "separated [] = True"
| "separated [w] = (isOperandToken w \<or> isSeparatorToken w)"
| "separated (w # v # ws) =
     ((isSeparatorToken w \<or> (isOperandToken w \<and> isSeparatorToken v)) \<and> separated (v # ws))"

fun spaced :: "jsstring list \<Rightarrow> jsstring" where
  "spaced [] = []"
| "spaced [w] = w"
| "spaced (w # v # ws) = w @ space # spaced (v # ws)"

text \<open>The second statement of the tokenizer alone: split, then drop the blank fragments.\<close>

definition fragments :: "jsstring \<Rightarrow> jsstring list" where
  "fragments u = filter (\<lambda>token. trim token \<noteq> []) (split u)"


text \<open>The \<open>switch\<close> of the evaluator as a function of the operator token.\<close>

definition binop :: "approximation \<Rightarrow> token \<Rightarrow> number \<Rightarrow> number \<Rightarrow> number" where
  "binop approx t lhs rhs =
     (if t = tok ''+'' then num_add lhs rhs
      else if t = tok ''-'' then num_sub lhs rhs
      else if t = tok ''*'' then num_mul lhs rhs
      else if t = tok ''/'' then num_div lhs rhs
      else num_pow approx lhs rhs)"

text \<open>
  An infix chain \<open>a0 o1 a1 o2 a2 ...\<close> given by its first operand and the pairs of an
  operator and the operand after it, and the postfix sequence \<open>a0 a1 o1 a2 o2 ...\<close>.
\<close>

definition infixChain :: "token \<Rightarrow> (token \<times> token) list \<Rightarrow> token list" where
  "infixChain a ps = a # concat (map (\<lambda>(o', b). [o', b]) ps)"

definition postfixChain :: "token \<Rightarrow> (token \<times> token) list \<Rightarrow> token list" where
  "postfixChain a ps = a # concat (map (\<lambda>(o', b). [b, o']) ps)"

section \<open>Facts about tokens and arrays\<close>

lemma isNaN_symbols:
  "isNaN (tok ''+'')" "isNaN (tok ''-'')" "isNaN (tok ''*'')" "isNaN (tok ''/'')"
  "isNaN (tok ''^'')" "isNaN (tok ''('')" "isNaN (tok '')'')"
  by code_simp+

lemma isOperator_symbols:
  "isOperator (tok ''+'')" "isOperator (tok ''-'')" "isOperator (tok ''*'')"
  "isOperator (tok ''/'')" "isOperator (tok ''^'')"
  "\<not> isOperator (tok ''('')" "\<not> isOperator (tok '')'')"
  by code_simp+

lemma digits_numeric: "\<not> isNaN (tok ''3'')" "\<not> isNaN (tok ''4'')"
  by code_simp+

lemma operatorPrecendence_paren: "operatorPrecendence (tok ''('') = None"
  by code_simp

lemma js_inj: "js a = js b \<longleftrightarrow> a = b"
proof -
  have "inj (\<lambda>c. (of_nat (of_char c) :: 16 word))"
  proof (rule injI)
    fix x y :: char
    assume "(of_nat (of_char x) :: 16 word) = of_nat (of_char y)"
    then have "unat (of_nat (of_char x) :: 16 word) = unat (of_nat (of_char y) :: 16 word)"
      by simp
    moreover have "(of_char c :: nat) < 65536" for c
      using nat_of_char_less_256 [of c] by linarith
    ultimately have "(of_char x :: nat) = of_char y"
      by (simp add: unat_of_nat)
    then show "x = y" by simp
   qed
  then show ?thesis
    by (simp add: js_def inj_map_eq_map)
qed

lemma tok_eq_iff: "tok a = tok b \<longleftrightarrow> a = b"
  by (simp add: tok_def js_inj)

lemma tok_not_Undefined: "tok s \<noteq> Undefined"
  by (simp add: tok_def)

lemma pop_Nil: "pop [] = (Undefined, [])"
  by (simp add: pop_def)

lemma pop_single: "pop [x] = (x, [])"
  by (simp add: pop_def)

lemma pop_snoc: "pop (xs @ [x]) = (x, xs)"
  by (simp add: pop_def)

lemma count_list_butlast:
  "st \<noteq> [] \<Longrightarrow> last st \<noteq> x \<Longrightarrow> count_list (butlast st) x = count_list st x"
proof -
  assume a: "st \<noteq> []" "last st \<noteq> x"
  have "count_list (butlast st @ [last st]) x = count_list (butlast st) x"
    using a(2) by simp
  with a(1) show ?thesis by simp
qed

section \<open>The tokenizer: fragments and spacing\<close>

lemma tokenizeExpression_fragments:
  "tokenizeExpression s = map Val (fragments (replaceSeparators s))"
  by (simp add: tokenizeExpression_def fragments_def)

lemma split_not_Nil: "split u \<noteq> []"
  by (cases u) (auto split: list.splits)

lemma split_append_space: "split (a @ space # b) = split a @ split b"
proof (induction a)
  case Nil
  then show ?case by simp
next
  case (Cons c a)
  then show ?case
    using split_not_Nil [of a] by (cases "split a") auto
qed

lemma split_no_space: "w \<in> set (split u) \<Longrightarrow> space \<notin> set w"
proof (induction u arbitrary: w)
  case Nil
  then show ?case by simp
next
  case (Cons c u)
  then show ?case
    by (cases "split u") (auto split: if_splits)
qed

lemma split_without_space: "space \<notin> set w \<Longrightarrow> split w = [w]"
  by (induction w) auto

lemma trim_empty_iff: "trim w = [] \<longleftrightarrow> (\<forall>c\<in>set w. isWhiteSpace c)"
proof
  assume "trim w = []"
  then have a: "\<forall>c\<in>set (dropWhile isWhiteSpace w). isWhiteSpace c"
    by (simp add: trim_def dropWhile_eq_Nil_conv)
  show "\<forall>c\<in>set w. isWhiteSpace c"
  proof (cases "dropWhile isWhiteSpace w = []")
    case True
    then show ?thesis by (simp add: dropWhile_eq_Nil_conv)
  next
    case False
    then have "\<not> isWhiteSpace (hd (dropWhile isWhiteSpace w))"
      by (rule hd_dropWhile)
    moreover from False have "hd (dropWhile isWhiteSpace w) \<in> set (dropWhile isWhiteSpace w)"
      by simp
    ultimately show ?thesis using a by blast
  qed
next
  assume "\<forall>c\<in>set w. isWhiteSpace c"
  then show "trim w = []"
    by (auto simp: trim_def dropWhile_eq_Nil_conv dest: set_dropWhileD)
qed

lemma replaceSeparators_append:
  "replaceSeparators (a @ b) = replaceSeparators a @ replaceSeparators b"
  by (induction a) auto

lemma replaceSeparators_id: "\<forall>c\<in>set w. \<not> isSeparator c \<Longrightarrow> replaceSeparators w = w"
  by (induction w) auto

lemma separator_not_space: "isSeparator c \<Longrightarrow> c \<noteq> space \<and> \<not> isWhiteSpace c"
  by (auto simp: isSeparator_def js_def space_def isWhiteSpace_def)

lemma space_not_separator: "\<not> isSeparator space"
  using separator_not_space by blast

lemma fragments_Nil: "fragments [] = []"
  by (simp add: fragments_def trim_def)

lemma fragments_append_space: "fragments (a @ space # b) = fragments a @ fragments b"
  by (simp add: fragments_def split_append_space)

lemma fragments_operand: "isOperandToken w \<Longrightarrow> fragments w = [w]"
proof -
  assume a: "isOperandToken w"
  then have "space \<notin> set w"
    by (auto simp: isOperandToken_def)
  then have "split w = [w]"
    by (rule split_without_space)
  moreover from a have "trim w \<noteq> []"
    by (auto simp: isOperandToken_def trim_empty_iff)
  ultimately show ?thesis
    by (simp add: fragments_def)
qed

lemma fragments_separator: "isSeparator c \<Longrightarrow> fragments (c # space # u) = [c] # fragments u"
proof -
  assume a: "isSeparator c"
  then have "split [c] = [[c]]" "trim [c] \<noteq> []"
    using separator_not_space [OF a] by (auto simp: trim_empty_iff)
  then have "fragments [c] = [[c]]"
    by (simp add: fragments_def)
  with fragments_append_space [of "[c]" u] show ?thesis
    by simp
qed

lemma tokens_separator_first:
  "isSeparator c \<Longrightarrow> fragments (replaceSeparators (c # u)) = [c] # fragments (replaceSeparators u)"
  using fragments_append_space [of "[]" "c # space # replaceSeparators u"]
  by (simp add: fragments_Nil fragments_separator)

lemma tokens_operand_first:
  assumes "isOperandToken w"
  shows "fragments (replaceSeparators (w @ space # u)) = w # fragments (replaceSeparators u)"
    and "isSeparator c \<Longrightarrow>
         fragments (replaceSeparators (w @ c # u)) = w # fragments (replaceSeparators (c # u))"
proof -
  from assms have r: "replaceSeparators w = w"
    by (auto simp: isOperandToken_def intro: replaceSeparators_id)
  show "fragments (replaceSeparators (w @ space # u)) = w # fragments (replaceSeparators u)"
    using fragments_append_space [of w "replaceSeparators u"] fragments_operand [OF assms]
    by (simp add: replaceSeparators_append r space_not_separator)
  assume c: "isSeparator c"
  have "fragments (replaceSeparators (w @ c # u)) = fragments (w @ space # c # space # replaceSeparators u)"
    using c by (simp add: replaceSeparators_append r)
  also have "\<dots> = w # fragments (c # space # replaceSeparators u)"
    using fragments_append_space [of w "c # space # replaceSeparators u"] fragments_operand [OF assms]
    by simp
  also have "\<dots> = w # fragments (replaceSeparators (c # u))"
    using tokens_separator_first [OF c, of u] fragments_separator [OF c, of "replaceSeparators u"]
    by (simp del: replaceSeparators.simps)
  finally show "fragments (replaceSeparators (w @ c # u)) = w # fragments (replaceSeparators (c # u))" .
qed

lemma tokens_single:
  "isOperandToken w \<or> isSeparatorToken w \<Longrightarrow> fragments (replaceSeparators w) = [w]"
proof (erule disjE)
  assume a: "isOperandToken w"
  then have "replaceSeparators w = w"
    by (auto simp: isOperandToken_def intro: replaceSeparators_id)
  with fragments_operand [OF a] show ?thesis by simp
next
  assume "isSeparatorToken w"
  then obtain c where "w = [c]" "isSeparator c"
    by (auto simp: isSeparatorToken_def split: list.splits)
  with tokens_separator_first [of c "[]"] show ?thesis
    by (simp add: fragments_Nil)
qed

lemma tokens_spaced: "separated ws \<Longrightarrow> fragments (replaceSeparators (spaced ws)) = ws"
proof (induction ws rule: separated.induct)
  case 1
  then show ?case by (simp add: fragments_Nil)
next
  case (2 w)
  then show ?case by (simp add: tokens_single)
next
  case (3 w v ws)
  from "3.prems" have t: "isOperandToken w \<or> isSeparatorToken w" and s: "separated (v # ws)"
    by auto
  have "fragments (replaceSeparators (spaced (w # v # ws)))
        = fragments (replaceSeparators w @ space # replaceSeparators (spaced (v # ws)))"
    by (simp add: replaceSeparators_append space_not_separator)
  also have "\<dots> = fragments (replaceSeparators w) @ fragments (replaceSeparators (spaced (v # ws)))"
    by (rule fragments_append_space)
  also have "\<dots> = w # v # ws"
    using tokens_single [OF t] "3.IH" [OF s] by simp
  finally show ?case .
qed

lemma tokens_concat: "separated ws \<Longrightarrow> fragments (replaceSeparators (concat ws)) = ws"
proof (induction ws rule: separated.induct)
  case 1
  then show ?case by (simp add: fragments_Nil)
next
  case (2 w)
  then show ?case by (simp add: tokens_single)
next
  case (3 w v ws)
  from "3.prems" have s: "separated (v # ws)"
    by simp
  note ih = "3.IH" [OF s]
  from "3.prems" consider
    (sep) c where "w = [c]" "isSeparator c"
    | (operand) c where "isOperandToken w" "v = [c]" "isSeparator c"
    by (auto simp: isSeparatorToken_def split: list.splits)
  then show ?case
  proof cases
    case sep
    with ih tokens_separator_first [of c "concat (v # ws)"] show ?thesis
      by simp
  next
    case operand
    with ih tokens_operand_first(2) [of w c "concat ws"] show ?thesis
      by simp
  qed
qed

section \<open>The converter: termination and parentheses\<close>

lemma popToParen_returns_paren:
  "popToParen c st q = Some y \<Longrightarrow> tok ''('' \<in> set (c # st)"
proof (induction rule: popToParen.raw_induct [rotated 1, consumes 1])
  case (1 f c st q y)
  show ?case
  proof (cases "c = tok ''(''")
    case True
    then show ?thesis by simp
  next
    case False
    with 1(2) have "f (fst (pop st)) (snd (pop st)) (q @ [c]) = Some y"
      by simp
    from 1(1) [OF this] have "tok ''('' \<in> set (fst (pop st) # snd (pop st))" .
    then have "tok ''('' \<in> set st"
      by (cases "st = []") (auto simp: pop_def tok_not_Undefined dest: in_set_butlastD)
    then show ?thesis by simp
  qed
qed

lemma popToParen_diverges:
  "tok ''('' \<notin> set (c # st) \<Longrightarrow> popToParen c st q = None"
  using popToParen_returns_paren [of c st q] by (cases "popToParen c st q") auto

lemma popToParen_total:
  "tok ''('' \<in> set (c # st) \<Longrightarrow>
   \<exists>s q'. popToParen c st q = Some (s, q')
     \<and> Suc (count_list s (tok ''('')) = count_list (c # st) (tok ''('')
     \<and> count_list q' (tok ''('') = count_list q (tok ''('')"
proof (induction st arbitrary: c q rule: rev_induct)
  case Nil
  then show ?case by (simp add: popToParen.simps)
next
  case (snoc x xs)
  show ?case
  proof (cases "c = tok ''(''")
    case True
    then show ?thesis by (simp add: popToParen.simps)
  next
    case False
    with snoc.prems have "tok ''('' \<in> set (x # xs)" by auto
    from snoc.IH [OF this, of "q @ [c]"] False show ?thesis
      by (subst popToParen.simps) (auto simp: pop_snoc)
  qed
qed

lemma popHigher_parens:
  "popHigher t st q = (s, q') \<Longrightarrow>
   count_list s (tok ''('') = count_list st (tok ''('') \<and> count_list q' (tok ''('') = count_list q (tok ''('')"
proof (induction t st q rule: popHigher.induct)
  case (1 t st q)
  show ?case
  proof (cases "st \<noteq> [] \<and> geq (operatorPrecendence (last st)) (operatorPrecendence t)")
    case True
    then have ne: "last st \<noteq> tok ''(''"
      by (auto simp: operatorPrecendence_paren)
    from True 1(2) have "popHigher t (butlast st) (q @ [last st]) = (s, q')"
      by (subst (asm) popHigher.simps) simp
    from 1(1) [OF True this] True ne show ?thesis
      by (simp add: count_list_butlast)
  next
    case False
    with 1(2) show ?thesis
      by (subst (asm) popHigher.simps) auto
  qed
qed

lemma drain_rev: "drain s q = q @ rev s"
proof (induction s q rule: drain.induct)
  case (1 s q)
  show ?case
  proof (cases "s = []")
    case True
    then show ?thesis by (subst drain.simps) simp
  next
    case False
    then have "drain s q = drain (butlast s) (q @ [last s])"
      by (subst drain.simps) simp
    also have "\<dots> = (q @ [last s]) @ rev (butlast s)"
      using 1 [OF False] .
    also have "\<dots> = q @ rev (butlast s @ [last s])"
      by simp
    also have "\<dots> = q @ rev s"
      using False by simp
    finally show ?thesis .
  qed
qed

lemma shiftLoop_matched:
  "closingMatched e (count_list st (tok ''('')) \<Longrightarrow>
   \<exists>s q'. shiftLoop e st q = Some (s, q')
     \<and> count_list s (tok ''('') + count_list q' (tok ''('') + count_list e (tok '')'')
       = count_list st (tok ''('') + count_list q (tok ''('') + count_list e (tok ''('')"
proof (induction e arbitrary: st q)
  case Nil
  then show ?case by simp
next
  case (Cons t e)
  consider (num) "\<not> isNaN t" | (lp) "t = tok ''(''" | (rp) "t = tok '')''"
    | (op) "isNaN t" "t \<noteq> tok ''(''" "t \<noteq> tok '')''" "isOperator t"
    | (other) "isNaN t" "t \<noteq> tok ''(''" "t \<noteq> tok '')''" "\<not> isOperator t"
    by blast
  then show ?case
  proof cases
    case num
    then have ne: "t \<noteq> tok ''(''" "t \<noteq> tok '')''"
      using isNaN_symbols by auto
    with Cons.prems have "closingMatched e (count_list st (tok ''(''))" by simp
    from Cons.IH [OF this, of "q @ [t]"] num ne show ?thesis by auto
  next
    case lp
    with Cons.prems have "closingMatched e (count_list (st @ [t]) (tok ''(''))" by simp
    from Cons.IH [OF this, of q] lp show ?thesis
      by (auto simp: isNaN_symbols tok_eq_iff)
  next
    case rp
    with Cons.prems have d: "0 < count_list st (tok ''('')"
      and m: "closingMatched e (count_list st (tok ''('') - 1)"
      by (simp_all add: tok_eq_iff)
    from d have ne: "st \<noteq> []" by auto
    then have st: "st = butlast st @ [last st]" by simp
    from d have "tok ''('' \<in> set st"
      by (metis count_notin less_numeral_extra(3))
    then have "tok ''('' \<in> set (last st # butlast st)"
      by (subst (asm) st) auto
    from popToParen_total [OF this, of q] obtain s1 q1 where
      p: "popToParen (last st) (butlast st) q = Some (s1, q1)"
      and c1: "Suc (count_list s1 (tok ''('')) = count_list (last st # butlast st) (tok ''('')"
      and c2: "count_list q1 (tok ''('') = count_list q (tok ''('')"
      by blast
    have "count_list (last st # butlast st) (tok ''('') = count_list (butlast st @ [last st]) (tok ''('')"
      by simp
    with st have c3: "count_list (last st # butlast st) (tok ''('') = count_list st (tok ''('')"
      by simp
    with c1 m have "closingMatched e (count_list s1 (tok ''(''))"
      by (metis diff_Suc_1)
    from Cons.IH [OF this, of q1] obtain s q' where
      r: "shiftLoop e s1 q1 = Some (s, q')"
      and c4: "count_list s (tok ''('') + count_list q' (tok ''('') + count_list e (tok '')'')
       = count_list s1 (tok ''('') + count_list q1 (tok ''('') + count_list e (tok ''('')"
      by blast
    from ne have pp: "pop st = (last st, butlast st)" by (simp add: pop_def)
    have "shiftLoop (t # e) st q = Some (s, q')"
      using rp p r pp by (simp add: isNaN_symbols tok_eq_iff)
    moreover have "count_list s (tok ''('') + count_list q' (tok ''('') + count_list (t # e) (tok '')'')
       = count_list st (tok ''('') + count_list q (tok ''('') + count_list (t # e) (tok ''('')"
      using c4 c1 c2 c3 rp by (simp add: tok_eq_iff)
    ultimately show ?thesis by blast
  next
    case op
    obtain s1 q1 where ph: "popHigher t st q = (s1, q1)"
      by (cases "popHigher t st q")
    from popHigher_parens [OF ph] have c: "count_list s1 (tok ''('') = count_list st (tok ''('')"
      "count_list q1 (tok ''('') = count_list q (tok ''('')" by simp_all
    with Cons.prems op have "closingMatched e (count_list (s1 @ [t]) (tok ''(''))" by simp
    from Cons.IH [OF this, of q1] op ph c show ?thesis by auto
  next
    case other
    with Cons.prems have "closingMatched e (count_list st (tok ''(''))" by simp
    from Cons.IH [OF this, of q] other show ?thesis by auto
  qed
qed

lemma shiftLoop_unmatched:
  "\<not> closingMatched e (count_list st (tok ''('')) \<Longrightarrow> shiftLoop e st q = None"
proof (induction e arbitrary: st q)
  case Nil
  then show ?case by simp
next
  case (Cons t e)
  consider (num) "\<not> isNaN t" | (lp) "t = tok ''(''" | (rp) "t = tok '')''"
    | (op) "isNaN t" "t \<noteq> tok ''(''" "t \<noteq> tok '')''" "isOperator t"
    | (other) "isNaN t" "t \<noteq> tok ''(''" "t \<noteq> tok '')''" "\<not> isOperator t"
    by blast
  then show ?case
  proof cases
    case num
    then have ne: "t \<noteq> tok ''(''" "t \<noteq> tok '')''"
      using isNaN_symbols by auto
    with Cons.prems have "\<not> closingMatched e (count_list st (tok ''(''))" by simp
    from Cons.IH [OF this, of "q @ [t]"] num show ?thesis by simp
  next
    case lp
    with Cons.prems have "\<not> closingMatched e (count_list (st @ [t]) (tok ''(''))" by simp
    from Cons.IH [OF this, of q] lp show ?thesis
      by (simp add: isNaN_symbols)
  next
    case rp
    show ?thesis
    proof (cases "count_list st (tok ''('') = 0")
      case True
      then have "tok ''('' \<notin> set st"
        by (simp add: count_list_0_iff)
      then have "tok ''('' \<notin> set (fst (pop st) # snd (pop st))"
        by (cases "st = []") (auto simp: pop_def tok_not_Undefined dest: in_set_butlastD)
      then have "popToParen (fst (pop st)) (snd (pop st)) q = None"
        by (rule popToParen_diverges)
      with rp show ?thesis
        by (simp add: isNaN_symbols tok_eq_iff)
    next
      case False
      with rp Cons.prems have m: "\<not> closingMatched e (count_list st (tok ''('') - 1)"
        by (simp add: tok_eq_iff)
      from False have ne: "st \<noteq> []" by auto
      then have st: "butlast st @ [last st] = st" by simp
      from False have "tok ''('' \<in> set st"
        by (simp add: count_list_0_iff)
      then have "tok ''('' \<in> set (last st # butlast st)"
        by (subst (asm) st [symmetric]) auto
      from popToParen_total [OF this, of q] obtain s1 q1 where
        p: "popToParen (last st) (butlast st) q = Some (s1, q1)"
        and c1: "Suc (count_list s1 (tok ''('')) = count_list (last st # butlast st) (tok ''('')"
        by blast
      have "count_list (last st # butlast st) (tok ''('') = count_list (butlast st @ [last st]) (tok ''('')"
        by simp
      then have "count_list (last st # butlast st) (tok ''('') = count_list st (tok ''('')"
        by (simp only: st)
      with c1 m have "\<not> closingMatched e (count_list s1 (tok ''(''))"
        by (metis diff_Suc_1)
      from Cons.IH [OF this, of q1] have "shiftLoop e s1 q1 = None" .
      moreover from ne have "pop st = (last st, butlast st)"
        by (simp add: pop_def)
      ultimately show ?thesis
        using rp p by (simp add: isNaN_symbols tok_eq_iff)
    qed
  next
    case op
    obtain s1 q1 where ph: "popHigher t st q = (s1, q1)"
      by (cases "popHigher t st q")
    from popHigher_parens [OF ph] have c: "count_list s1 (tok ''('') = count_list st (tok ''('')"
      by simp
    with Cons.prems op have "\<not> closingMatched e (count_list (s1 @ [t]) (tok ''(''))" by simp
    from Cons.IH [OF this, of q1] op ph show ?thesis by simp
  next
    case other
    with Cons.prems have "\<not> closingMatched e (count_list st (tok ''(''))" by simp
    from Cons.IH [OF this, of q] other show ?thesis by simp
  qed
qed

lemma toPostfix_returns_iff: "toPostfix e \<noteq> None \<longleftrightarrow> closingMatched e 0"
proof
  assume r: "toPostfix e \<noteq> None"
  show "closingMatched e 0"
  proof (rule ccontr)
    assume "\<not> closingMatched e 0"
    then have "\<not> closingMatched e (count_list [] (tok ''(''))" by simp
    from shiftLoop_unmatched [OF this, of "[]"] r show False
      by (simp add: toPostfix_def)
  qed
next
  assume "closingMatched e 0"
  then have "closingMatched e (count_list [] (tok ''(''))" by simp
  from shiftLoop_matched [OF this, of "[]"] show "toPostfix e \<noteq> None"
    by (auto simp: toPostfix_def)
qed

section \<open>The evaluator: operands and operators\<close>

lemma num_NaN:
  "num_add NaN y = NaN" "num_add x NaN = NaN" "num_sub NaN y = NaN" "num_sub x NaN = NaN"
  "num_mul NaN y = NaN" "num_mul x NaN = NaN" "num_div NaN y = NaN" "num_div x NaN = NaN"
  by (simp_all add: num_add_def num_sub_def num_mul_def num_div_def)

lemma num_pow_NaN: "num_pow approx NaN x = (if isZero x then Fin 1 else NaN)"
  by (cases x) (simp_all add: num_pow_def)

lemma operator_cases:
  "isOperator t \<Longrightarrow>
   t = tok ''+'' \<or> t = tok ''-'' \<or> t = tok ''*'' \<or> t = tok ''/'' \<or> t = tok ''^''"
  by (auto simp: isOperator_def operators_def)

lemma operator_facts:
  assumes "isOperator t"
  shows "isNaN t" "t \<noteq> tok ''(''" "t \<noteq> tok '')''" "\<exists>p. operatorPrecendence t = Some p"
  using operator_cases [OF assms] isNaN_symbols
  by (auto simp: tok_eq_iff operatorPrecendence_def)

lemma evalLoop_numeric:
  "\<forall>t\<in>set e. \<not> isNaN t \<Longrightarrow>
   evalLoop approx e st = st @ map (\<lambda>t. Val (Number t)) e"
  by (induction e arbitrary: st) auto

lemma evalLoop_operand:
  "\<not> isNaN a \<Longrightarrow> evalLoop approx (a # e) st = evalLoop approx e (st @ [Val (Number a)])"
  by simp

lemma evalLoop_operator:
  assumes "isOperator t"
  shows "evalLoop approx (t # e) (st @ [Val lhs, Val rhs])
         = evalLoop approx e (st @ [Val (binop approx t lhs rhs)])"
proof -
  have s: "st @ [Val lhs, Val rhs] = (st @ [Val lhs]) @ [Val rhs]"
    by simp
  from operator_cases [OF assms] show ?thesis
    unfolding s
    by (auto simp add: binop_def isNaN_symbols isOperator_symbols tok_eq_iff pop_snoc
        simp del: append_assoc)
qed

lemma evalLoop_defined:
  "\<forall>x\<in>set st. x \<noteq> Undefined \<Longrightarrow> \<forall>x\<in>set (evalLoop approx e st). x \<noteq> Undefined"
proof (induction e arbitrary: st)
  case Nil
  then show ?case by simp
next
  case (Cons t e)
  have p: "\<forall>x\<in>set (snd (pop s)). x \<noteq> Undefined" if "\<forall>x\<in>set s. x \<noteq> Undefined"
    for s :: "number array"
    using that by (auto simp: pop_def dest: in_set_butlastD)
  from Cons.prems have "\<forall>x\<in>set (snd (pop (snd (pop st)))). x \<noteq> Undefined"
    by (intro p)
  with Cons.prems show ?case
    by (auto simp: Let_def intro!: Cons.IH)
qed

lemma evalLoop_postfix_chain:
  assumes "\<forall>(o', b)\<in>set ps. isOperator o' \<and> \<not> isNaN b"
  shows "evalLoop approx (concat (map (\<lambda>(o', b). [b, o']) ps)) (st @ [Val v])
         = st @ [Val (foldl (\<lambda>l (o', b). binop approx o' l (Number b)) v ps)]"
  using assms
proof (induction ps arbitrary: v)
  case Nil
  then show ?case by simp
next
  case (Cons p ps)
  obtain o' b where p: "p = (o', b)"
    by (cases p)
  with Cons.prems have o: "isOperator o'" and b: "\<not> isNaN b"
    and r: "\<forall>(o', b)\<in>set ps. isOperator o' \<and> \<not> isNaN b"
    by auto
  have "evalLoop approx (concat (map (\<lambda>(o', b). [b, o']) (p # ps))) (st @ [Val v])
        = evalLoop approx (o' # concat (map (\<lambda>(o', b). [b, o']) ps))
            (st @ [Val v, Val (Number b)])"
    using p b by simp
  also have "\<dots> = evalLoop approx (concat (map (\<lambda>(o', b). [b, o']) ps))
                      (st @ [Val (binop approx o' v (Number b))])"
    by (rule evalLoop_operator [OF o])
  also have "\<dots> = st @ [Val (foldl (\<lambda>l (o', b). binop approx o' l (Number b))
                               (binop approx o' v (Number b)) ps)]"
    by (rule Cons.IH [OF r])
  finally show ?case
    using p by simp
qed

lemma evaluate_postfix_chain:
  assumes "\<not> isNaN a" and "\<forall>(o', b)\<in>set ps. isOperator o' \<and> \<not> isNaN b"
  shows "evaluateExpression approx (postfixChain a ps)
         = Val (foldl (\<lambda>l (o', b). binop approx o' l (Number b)) (Number a) ps)"
  using assms(1) evalLoop_postfix_chain [OF assms(2), of approx "[]" "Number a"]
  by (simp add: evaluateExpression_def postfixChain_def)

section \<open>The converter: precedence\<close>

lemma popHigher_Nil: "popHigher t [] q = ([], q)"
  by (subst popHigher.simps) simp

lemma popHigher_single:
  "popHigher t [c] q =
   (if geq (operatorPrecendence c) (operatorPrecendence t) then ([], q @ [c]) else ([c], q))"
  by (subst popHigher.simps) (simp add: popHigher_Nil)

lemma shiftLoop_Nil: "shiftLoop [] st q = Some (st, q)"
  by simp

lemma shiftLoop_operand:
  "\<not> isNaN a \<Longrightarrow> shiftLoop (a # e) st q = shiftLoop e st (q @ [a])"
  by simp

lemma shiftLoop_operator:
  assumes "isOperator t"
  shows "shiftLoop (t # e) st q =
         shiftLoop e (fst (popHigher t st q) @ [t]) (snd (popHigher t st q))"
  using operator_facts(1-3) [OF assms] assms by (simp add: case_prod_beta)

lemma shiftLoop_chain:
  assumes "\<forall>(o', b)\<in>set ps. isOperator o' \<and> operatorPrecendence o' = operatorPrecendence c
             \<and> \<not> isNaN b"
    and "isOperator c"
  shows "\<exists>s q'. shiftLoop (concat (map (\<lambda>(o', b). [o', b]) ps)) [c] q = Some (s, q')
           \<and> drain s q' = q @ c # concat (map (\<lambda>(o', b). [b, o']) ps)"
  using assms
proof (induction ps arbitrary: c q)
  case Nil
  then show ?case by (simp add: drain_rev)
next
  case (Cons p ps)
  obtain o' b where p: "p = (o', b)"
    by (cases p)
  with Cons.prems have o: "isOperator o'" and b: "\<not> isNaN b"
    and e: "operatorPrecendence o' = operatorPrecendence c"
    and r: "\<forall>(o'', b)\<in>set ps. isOperator o'' \<and> operatorPrecendence o'' = operatorPrecendence o'
             \<and> \<not> isNaN b"
    by auto
  from operator_facts(4) [OF o] e have g: "geq (operatorPrecendence c) (operatorPrecendence o')"
    by auto
  have "shiftLoop (concat (map (\<lambda>(o', b). [o', b]) (p # ps))) [c] q
        = shiftLoop (concat (map (\<lambda>(o', b). [o', b]) ps)) [o'] (q @ [c, b])"
    using p b g
    by (simp add: shiftLoop_operator [OF o] shiftLoop_operand popHigher_single
        del: shiftLoop.simps)
  with Cons.IH [OF r o, of "q @ [c, b]"] p show ?case
    by simp
qed

lemma toPostfix_chain:
  assumes "\<not> isNaN a"
    and "\<forall>(o', b)\<in>set ps. isOperator o' \<and> operatorPrecendence o' = p \<and> \<not> isNaN b"
  shows "toPostfix (infixChain a ps) = Some (postfixChain a ps)"
proof (cases ps)
  case Nil
  with assms(1) show ?thesis
    by (simp add: toPostfix_def infixChain_def postfixChain_def drain_rev)
next
  case (Cons x xs)
  obtain o' b where x: "x = (o', b)"
    by (cases x)
  with Cons assms(2) have o: "isOperator o'" and b: "\<not> isNaN b"
    and r: "\<forall>(o'', b)\<in>set xs. isOperator o'' \<and> operatorPrecendence o'' = operatorPrecendence o'
             \<and> \<not> isNaN b"
    by auto
  from shiftLoop_chain [OF r o, of "[a, b]"] obtain s q' where
    "shiftLoop (concat (map (\<lambda>(o', b). [o', b]) xs)) [o'] [a, b] = Some (s, q')"
    "drain s q' = [a, b] @ o' # concat (map (\<lambda>(o', b). [b, o']) xs)"
    by blast
  with assms(1) b Cons x show ?thesis
    by (simp add: toPostfix_def infixChain_def postfixChain_def shiftLoop_operator [OF o]
        shiftLoop_operand shiftLoop_Nil popHigher_Nil del: shiftLoop.simps)
qed

lemma toPostfix_two_operators:
  assumes "\<not> isNaN a" "\<not> isNaN b" "\<not> isNaN c" "isOperator o1" "isOperator o2"
  shows "toPostfix [a, o1, b, o2, c] =
         Some (if geq (operatorPrecendence o1) (operatorPrecendence o2)
               then [a, b, o1, c, o2] else [a, b, c, o2, o1])"
  using assms(1-3)
  by (simp add: toPostfix_def shiftLoop_operator [OF assms(4)] shiftLoop_operator [OF assms(5)]
      shiftLoop_operand shiftLoop_Nil popHigher_Nil popHigher_single drain_rev
      del: shiftLoop.simps)

lemma evaluate_two_operators:
  assumes "\<not> isNaN a" "\<not> isNaN b" "\<not> isNaN c" "isOperator o1" "isOperator o2"
  shows "evaluateExpression approx [a, b, o1, c, o2]
         = Val (binop approx o2 (binop approx o1 (Number a) (Number b)) (Number c))"
    and "evaluateExpression approx [a, b, c, o2, o1]
         = Val (binop approx o1 (Number a) (binop approx o2 (Number b) (Number c)))"
proof -
  have "evalLoop approx [a, b, o1, c, o2] []
        = evalLoop approx [o1, c, o2] ([] @ [Val (Number a), Val (Number b)])"
    using assms(1,2) by simp
  also have "\<dots> = evalLoop approx [c, o2] ([] @ [Val (binop approx o1 (Number a) (Number b))])"
    by (rule evalLoop_operator [OF assms(4)])
  also have "\<dots> = evalLoop approx [o2]
                      ([] @ [Val (binop approx o1 (Number a) (Number b)), Val (Number c)])"
    using assms(3) by simp
  also have "\<dots> = evalLoop approx []
                      ([] @ [Val (binop approx o2 (binop approx o1 (Number a) (Number b)) (Number c))])"
    by (rule evalLoop_operator [OF assms(5)])
  finally show "evaluateExpression approx [a, b, o1, c, o2]
         = Val (binop approx o2 (binop approx o1 (Number a) (Number b)) (Number c))"
    by (simp add: evaluateExpression_def)
  have "evalLoop approx [a, b, c, o2, o1] []
        = evalLoop approx [o2, o1] ([Val (Number a)] @ [Val (Number b), Val (Number c)])"
    using assms(1-3) by simp
  also have "\<dots> = evalLoop approx [o1]
                      ([Val (Number a)] @ [Val (binop approx o2 (Number b) (Number c))])"
    by (rule evalLoop_operator [OF assms(5)])
  also have "\<dots> = evalLoop approx [o1]
                      ([] @ [Val (Number a), Val (binop approx o2 (Number b) (Number c))])"
    by simp
  also have "\<dots> = evalLoop approx []
                      ([] @ [Val (binop approx o1 (Number a) (binop approx o2 (Number b) (Number c)))])"
    by (rule evalLoop_operator [OF assms(4)])
  finally show "evaluateExpression approx [a, b, c, o2, o1]
         = Val (binop approx o1 (Number a) (binop approx o2 (Number b) (Number c)))"
    by (simp add: evaluateExpression_def)
qed

lemma tokenize_concat: "separated ws \<Longrightarrow> tokenizeExpression (concat ws) = map Val ws"
  by (simp add: tokenizeExpression_fragments tokens_concat)

section \<open>The tokenizer\<close>

text \<open>
  C9. The tokenizer is insensitive to spacing that is already there: for the tokens of
  an expression (no two operands adjacent, as in \<open>1 + 2 - 3\<close>), the string with one
  space between neighbouring tokens and the string without spaces have the same
  tokenization, which is the list of those tokens.
\<close>

theorem tokenize_spacing_insensitive:
  assumes "separated ws"
  shows "tokenizeExpression (concat ws) = tokenizeExpression (spaced ws)
         \<and> tokenizeExpression (spaced ws) = map Val ws"
  using assms by (simp add: tokenizeExpression_fragments tokens_spaced tokens_concat)

theorem tokenize_spacing_insensitive_witness:
  "tokenizeExpression (js ''1+2-3'') = tokenizeExpression (js ''1 + 2 - 3'')
   \<and> tokenizeExpression (js ''1 + 2 - 3'') = map tok [''1'', ''+'', ''2'', ''-'', ''3'']"
proof -
  have s: "separated (map js [''1'', ''+'', ''2'', ''-'', ''3''])"
    by code_simp
  have a: "spaced (map js [''1'', ''+'', ''2'', ''-'', ''3'']) = js ''1 + 2 - 3''"
    by code_simp
  have b: "concat (map js [''1'', ''+'', ''2'', ''-'', ''3'']) = js ''1+2-3''"
    by code_simp
  have c: "map Val (map js [''1'', ''+'', ''2'', ''-'', ''3''])
           = map tok [''1'', ''+'', ''2'', ''-'', ''3'']"
    by (simp add: tok_def)
  from tokenize_spacing_insensitive [OF s] show ?thesis
    unfolding a b c by simp
qed

text \<open>
  C10, as the claim states it, fails: the text is split at spaces only, so a tab inside
  the text stays inside its token. The string of \<open>1\<close>, a tab and \<open>2\<close> is one
  token.
\<close>

theorem token_contains_tab:
  "tokenizeExpression [0x31, 0x9, 0x32] = [Val [0x31, 0x9, 0x32]] \<and> isWhiteSpace 0x9
   \<and> \<not> (\<forall>t\<in>set (tokenizeExpression [0x31, 0x9, 0x32]).
           \<exists>w. t = Val w \<and> w \<noteq> [] \<and> (\<forall>c\<in>set w. \<not> isWhiteSpace c))"
proof -
  have a: "tokenizeExpression [0x31, 0x9, 0x32] = [Val [0x31, 0x9, 0x32]]"
    by code_simp
  have b: "isWhiteSpace 0x9"
    by (simp add: isWhiteSpace_def)
  show ?thesis
    unfolding a using b by auto
qed

text \<open>
  C10, amended. For every input string, every token returned by the tokenizer is a
  string that is not empty, contains no space character (U+0020) and contains a character
  that is not white space. Other white space (a tab, a line break) may occur in a token.
\<close>

theorem tokens_nonempty_without_space:
  "\<forall>t\<in>set (tokenizeExpression s).
     \<exists>w. t = Val w \<and> w \<noteq> [] \<and> space \<notin> set w \<and> (\<exists>c\<in>set w. \<not> isWhiteSpace c)"
proof
  fix t
  assume "t \<in> set (tokenizeExpression s)"
  then obtain w where t: "t = Val w" and w: "w \<in> set (split (replaceSeparators s))"
    and k: "trim w \<noteq> []"
    by (auto simp: tokenizeExpression_def)
  from k have e: "\<exists>c\<in>set w. \<not> isWhiteSpace c"
    by (simp add: trim_empty_iff)
  then have "w \<noteq> []" by auto
  with t e split_no_space [OF w]
  show "\<exists>w. t = Val w \<and> w \<noteq> [] \<and> space \<notin> set w \<and> (\<exists>c\<in>set w. \<not> isWhiteSpace c)"
    by blast
qed

theorem tokens_nonempty_without_space_witness:
  "Val (js ''12'') \<in> set (tokenizeExpression (js '' 12 +  3''))
   \<and> js ''12'' \<noteq> [] \<and> space \<notin> set (js ''12'') \<and> (\<exists>c\<in>set (js ''12''). \<not> isWhiteSpace c)"
proof -
  have m: "Val (js ''12'') \<in> set (tokenizeExpression (js '' 12 +  3''))"
    by code_simp
  with tokens_nonempty_without_space [of "js '' 12 +  3''"] show ?thesis
    by blast
qed

section \<open>The converter\<close>

text \<open>
  C2, as the claim states it, fails: the converter has no failure to report. On the
  tokens of \<open>(3 + 4\<close> it returns a token sequence, and the \<open>(\<close> is its last
  element.
\<close>

theorem stray_open_paren_in_output:
  "toPostfix (tokenizeExpression (js ''(3 + 4'')) = Some (map tok [''3'', ''4'', ''+'', ''(''])"
  by code_simp

text \<open>
  C2, amended. On an input in which every \<open>)\<close> has a \<open>(\<close> open before it, the
  converter returns a token sequence and reports no failure, also when opening
  parentheses are left unmatched: each unmatched \<open>(\<close> is emitted into the output, so
  that the output holds as many \<open>(\<close> as the input has \<open>(\<close> in excess of \<open>)\<close>.
\<close>

theorem unmatched_open_parens_emitted:
  assumes "closingMatched e 0"
  shows "\<exists>out. toPostfix e = Some out
           \<and> count_list out (tok ''('') + count_list e (tok '')'') = count_list e (tok ''('')"
proof -
  from assms have "closingMatched e (count_list [] (tok ''(''))"
    by simp
  from shiftLoop_matched [OF this, of "[]"] show ?thesis
    by (auto simp: toPostfix_def drain_rev)
qed

theorem unmatched_open_parens_emitted_witness:
  "closingMatched (tokenizeExpression (js ''((1 + 2) * 3'')) 0
   \<and> (\<exists>out. toPostfix (tokenizeExpression (js ''((1 + 2) * 3'')) = Some out
          \<and> count_list out (tok ''('') = 1)"
proof -
  have m: "closingMatched (tokenizeExpression (js ''((1 + 2) * 3'')) 0"
    by code_simp
  have l: "count_list (tokenizeExpression (js ''((1 + 2) * 3'')) (tok ''('') = 2"
    by code_simp
  have r: "count_list (tokenizeExpression (js ''((1 + 2) * 3'')) (tok '')'') = 1"
    by code_simp
  from unmatched_open_parens_emitted [OF m] m show ?thesis
    unfolding l r by auto
qed

text \<open>
  C5. The claim says that the converter terminates on every token sequence, \<open>3 + 4)\<close>
  included. On the tokens of \<open>3 + 4)\<close> the loop of the \<open>)\<close> branch pops the
  \<open>+\<close>, then pops the empty stack without end: the converter does not return.
\<close>

theorem toPostfix_unmatched_close_diverges:
  "toPostfix (tokenizeExpression (js ''3 + 4)'')) = None"
proof -
  have t: "tokenizeExpression (js ''3 + 4)'') = map tok [''3'', ''+'', ''4'', '')'']"
    by code_simp
  have h: "popHigher (tok ''+'') [] q = ([], q)" for q
    by (subst popHigher.simps) simp
  have d: "popToParen (tok ''+'') [] q = None" for q
    by (rule popToParen_diverges) (simp add: tok_eq_iff)
  show ?thesis
    unfolding t toPostfix_def
    by (simp add: digits_numeric isNaN_symbols isOperator_symbols tok_eq_iff h d pop_single)
qed

section \<open>The evaluator on malformed postfix sequences\<close>

text \<open>
  C3, as the claim states it, fails: the evaluator has no failure to report. On
  \<open>["+", "3"]\<close> it returns \<open>NaN\<close>, the value that the well-formed
  \<open>["0", "0", "/"]\<close> returns too.
\<close>

theorem underflow_returns_NaN:
  "\<forall>approx. evaluateExpression approx (map tok [''+'', ''3'']) = Val NaN
     \<and> evaluateExpression approx (map tok [''0'', ''0'', ''/'']) = Val NaN"
proof (intro allI)
  fix approx
  show "evaluateExpression approx (map tok [''+'', ''3'']) = Val NaN
     \<and> evaluateExpression approx (map tok [''0'', ''0'', ''/'']) = Val NaN"
    by code_simp
qed

text \<open>
  C3, amended. An operator that finds fewer than two operands on the evaluation stack
  reports nothing: each missing operand is \<open>undefined\<close>, which the arithmetic reads
  as \<open>NaN\<close>. What the stack held is replaced by the single result, and the evaluation
  goes on. The result is \<open>NaN\<close>, with one exception: \<open>^\<close> with a zero (\<open>+0\<close> or
  \<open>-0\<close>) as the one operand there gives 1, since \<open>NaN ** 0\<close> is 1.
\<close>

theorem operator_underflow_pushes_NaN:
  assumes "length evalStack < 2"
    and "isOperator t"
  shows "evalLoop approx (t # expression) evalStack =
         evalLoop approx expression
           [Val (if t = tok ''^'' \<and> isZero (toNumeric (fst (pop evalStack))) then Fin 1
                 else NaN)]"
proof -
  note t = operator_cases [OF assms(2)]
  from assms(1) consider "evalStack = []" | x where "evalStack = [x]"
    by (cases evalStack) (auto simp: less_Suc_eq)
  then show ?thesis
  proof cases
    case 1
    with t show ?thesis
      by (auto simp add: isNaN_symbols isOperator_symbols tok_eq_iff pop_Nil num_NaN num_pow_NaN)
  next
    case 2
    with t show ?thesis
      by (auto simp add: isNaN_symbols isOperator_symbols tok_eq_iff pop_Nil pop_single num_NaN
          num_pow_NaN)
  qed
qed

theorem operator_underflow_pushes_NaN_witness:
  "\<forall>approx. evalLoop approx (map tok [''+'', ''3'']) [] = [Val NaN, Val (Fin 3)]
     \<and> evalLoop approx (map tok [''1.5'', ''^'']) [] = [Val NaN]
     \<and> evalLoop approx (map tok [''0'', ''^'']) [] = [Val (Fin 1)]
     \<and> evalLoop approx (map tok [''-0'', ''^'']) [] = [Val (Fin 1)]"
proof (intro allI)
  fix approx
  have n: "Number (tok ''3'') = Fin 3" "Number (tok ''1.5'') = Fin (3 / 2)"
    "Number (tok ''0'') = Fin 0" "Number (tok ''-0'') = NegZero"
    by code_simp+
  have d: "\<not> isNaN (tok ''3'')" "\<not> isNaN (tok ''1.5'')" "\<not> isNaN (tok ''0'')"
    "\<not> isNaN (tok ''-0'')"
    by code_simp+
  have l: "length ([] :: number array) < 2" "length [Val x] < 2" for x :: number
    by simp_all
  from operator_underflow_pushes_NaN [OF l(1) isOperator_symbols(1), of approx "[tok ''3'']"]
  have a: "evalLoop approx (map tok [''+'', ''3'']) [] = [Val NaN, Val (Fin 3)]"
    by (simp add: tok_eq_iff d n)
  have b: "evalLoop approx (map tok [s, ''^'']) []
           = [Val (if isZero (Number (tok s)) then Fin 1 else NaN)]" if "\<not> isNaN (tok s)" for s
    using operator_underflow_pushes_NaN [OF l(2) isOperator_symbols(5), of approx "[]" "Number (tok s)"]
      that
    by (simp add: pop_single)
  from a b [OF d(2)] b [OF d(3)] b [OF d(4)] show
    "evalLoop approx (map tok [''+'', ''3'']) [] = [Val NaN, Val (Fin 3)]
     \<and> evalLoop approx (map tok [''1.5'', ''^'']) [] = [Val NaN]
     \<and> evalLoop approx (map tok [''0'', ''^'']) [] = [Val (Fin 1)]
     \<and> evalLoop approx (map tok [''-0'', ''^'']) [] = [Val (Fin 1)]"
    by (simp add: n)
qed

text \<open>
  C4, as the claim states it, fails: with two values left on the stack the evaluator
  returns the first of them, a number, and no failure.
\<close>

theorem leftover_operands_return_number:
  "\<forall>approx. evalLoop approx (map tok [''3'', ''4'']) [] = [Val (Fin 3), Val (Fin 4)]
     \<and> evaluateExpression approx (map tok [''3'', ''4'']) = Val (Fin 3)"
proof (intro allI)
  fix approx
  show "evalLoop approx (map tok [''3'', ''4'']) [] = [Val (Fin 3), Val (Fin 4)]
     \<and> evaluateExpression approx (map tok [''3'', ''4'']) = Val (Fin 3)"
    by code_simp
qed

text \<open>
  C4, amended. The evaluator returns element 0 of the evaluation stack, however many
  values the stack holds at the end: the one value when exactly one remains, the value
  pushed first (the bottom of the stack) when more than one remain, and \<open>undefined\<close>
  when none remains, as on an input of zero tokens. No failure is reported: what is
  returned from a stack that is not empty is a number, and a sequence of numeric tokens
  alone, of any length, evaluates to the number of its first token.
\<close>

theorem evaluate_returns_bottom_of_stack:
  "evaluateExpression approx [] = Undefined
   \<and> (\<forall>e. evalLoop approx e [] = [] \<longrightarrow> evaluateExpression approx e = Undefined)
   \<and> (\<forall>e v rest. evalLoop approx e [] = v # rest
          \<longrightarrow> evaluateExpression approx e = v \<and> (\<exists>n. v = Val n))
   \<and> (\<forall>t e. \<not> isNaN t \<and> (\<forall>u\<in>set e. \<not> isNaN u)
          \<longrightarrow> evaluateExpression approx (t # e) = Val (Number t))"
proof -
  have "evaluateExpression approx (t # e) = Val (Number t)"
    if "\<not> isNaN t" "\<forall>u\<in>set e. \<not> isNaN u" for t e
  proof -
    from that have "\<forall>u\<in>set (t # e). \<not> isNaN u"
      by simp
    from evalLoop_numeric [OF this, of approx "[]"] show ?thesis
      by (simp add: evaluateExpression_def)
  qed
  moreover have "\<exists>n. v = Val n" if "evalLoop approx e [] = v # rest" for e v rest
  proof -
    have "\<forall>x\<in>set (evalLoop approx e []). x \<noteq> Undefined"
      by (rule evalLoop_defined) simp
    with that have "v \<noteq> Undefined"
      by simp
    then show ?thesis
      by (cases v) simp_all
  qed
  ultimately show ?thesis
    by (simp add: evaluateExpression_def)
qed

theorem evaluate_returns_bottom_of_stack_witness:
  "\<forall>approx. evalLoop approx (map tok [''1'', ''2'', ''5'']) []
               = [Val (Fin 1), Val (Fin 2), Val (Fin 5)]
     \<and> evaluateExpression approx (map tok [''1'', ''2'', ''5'']) = Val (Fin 1)"
proof (intro allI)
  fix approx
  have l: "evalLoop approx (map tok [''1'', ''2'', ''5'']) []
           = [Val (Fin 1), Val (Fin 2), Val (Fin 5)]"
    by code_simp
  from evaluate_returns_bottom_of_stack [of approx] l
  show "evalLoop approx (map tok [''1'', ''2'', ''5'']) []
               = [Val (Fin 1), Val (Fin 2), Val (Fin 5)]
     \<and> evaluateExpression approx (map tok [''1'', ''2'', ''5'']) = Val (Fin 1)"
    by blast
qed

section \<open>The pipeline\<close>

text \<open>
  C1. Exponentiation groups to the left: for \<open>2 ^ 3 ^ 2\<close> the converter yields
  \<open>2 3 ^ 2 ^\<close> and the evaluation of that postfix sequence returns 64, that is
  \<open>(2^3)^2\<close>, and not 512.
\<close>

theorem exponentiation_left_associative:
  "toPostfix (tokenizeExpression (js ''2 ^ 3 ^ 2'')) = Some (map tok [''2'', ''3'', ''^'', ''2'', ''^''])
   \<and> map_option (evaluateExpression approx) (toPostfix (tokenizeExpression (js ''2 ^ 3 ^ 2'')))
       = Some (Val (Fin 64))
   \<and> map_option (evaluateExpression approx) (toPostfix (tokenizeExpression (js ''2 ^ 3 ^ 2'')))
       \<noteq> Some (Val (Fin 512))"
proof -
  have p: "toPostfix (tokenizeExpression (js ''2 ^ 3 ^ 2''))
           = Some (map tok [''2'', ''3'', ''^'', ''2'', ''^''])"
    by code_simp
  have e: "evaluateExpression approx (map tok [''2'', ''3'', ''^'', ''2'', ''^'']) = Val (Fin 64)"
    by code_simp
  show ?thesis
    unfolding p using e by simp
qed

text \<open>
  C6. Operators of equal precedence group from left to right, and the evaluator applies
  each operator as \<open>lhs OP rhs\<close> with \<open>rhs\<close> the operand pushed last:
  \<open>1 + 2 - 3\<close> evaluates to 0 and \<open>8 / 2 / 2\<close> to 2. In general, a chain
  \<open>a0 o1 a1 o2 a2 ...\<close> of numeric operands and operators of one precedence is
  converted to \<open>a0 a1 o1 a2 o2 ...\<close>, whose value is
  \<open>((a0 o1 a1) o2 a2) ...\<close>, where \<open>binop\<close> applies the operator of a token.
\<close>

theorem equal_precedence_left_to_right:
  "map_option (evaluateExpression approx) (toPostfix (tokenizeExpression (js ''1 + 2 - 3'')))
     = Some (Val (Fin 0))
   \<and> map_option (evaluateExpression approx) (toPostfix (tokenizeExpression (js ''8 / 2 / 2'')))
     = Some (Val (Fin 2))
   \<and> (\<forall>e st lhs rhs.
         evalLoop approx (tok ''+'' # e) (st @ [Val lhs, Val rhs])
           = evalLoop approx e (st @ [Val (num_add lhs rhs)])
       \<and> evalLoop approx (tok ''-'' # e) (st @ [Val lhs, Val rhs])
           = evalLoop approx e (st @ [Val (num_sub lhs rhs)])
       \<and> evalLoop approx (tok ''*'' # e) (st @ [Val lhs, Val rhs])
           = evalLoop approx e (st @ [Val (num_mul lhs rhs)])
       \<and> evalLoop approx (tok ''/'' # e) (st @ [Val lhs, Val rhs])
           = evalLoop approx e (st @ [Val (num_div lhs rhs)])
       \<and> evalLoop approx (tok ''^'' # e) (st @ [Val lhs, Val rhs])
           = evalLoop approx e (st @ [Val (num_pow approx lhs rhs)]))
   \<and> (\<forall>lhs rhs.
         binop approx (tok ''+'') lhs rhs = num_add lhs rhs
       \<and> binop approx (tok ''-'') lhs rhs = num_sub lhs rhs
       \<and> binop approx (tok ''*'') lhs rhs = num_mul lhs rhs
       \<and> binop approx (tok ''/'') lhs rhs = num_div lhs rhs
       \<and> binop approx (tok ''^'') lhs rhs = num_pow approx lhs rhs)
   \<and> (\<forall>a ps p.
         \<not> isNaN a
         \<and> (\<forall>(o', b)\<in>set ps. isOperator o' \<and> operatorPrecendence o' = p \<and> \<not> isNaN b)
         \<longrightarrow> toPostfix (infixChain a ps) = Some (postfixChain a ps)
             \<and> evaluateExpression approx (postfixChain a ps)
                 = Val (foldl (\<lambda>lhs (o', b). binop approx o' lhs (Number b)) (Number a) ps))"
proof -
  have a: "map_option (evaluateExpression approx) (toPostfix (tokenizeExpression (js ''1 + 2 - 3'')))
           = Some (Val (Fin 0))"
    by code_simp
  have b: "map_option (evaluateExpression approx) (toPostfix (tokenizeExpression (js ''8 / 2 / 2'')))
           = Some (Val (Fin 2))"
    by code_simp
  have c: "evalLoop approx (tok ''+'' # e) (st @ [Val lhs, Val rhs])
             = evalLoop approx e (st @ [Val (num_add lhs rhs)])
       \<and> evalLoop approx (tok ''-'' # e) (st @ [Val lhs, Val rhs])
           = evalLoop approx e (st @ [Val (num_sub lhs rhs)])
       \<and> evalLoop approx (tok ''*'' # e) (st @ [Val lhs, Val rhs])
           = evalLoop approx e (st @ [Val (num_mul lhs rhs)])
       \<and> evalLoop approx (tok ''/'' # e) (st @ [Val lhs, Val rhs])
           = evalLoop approx e (st @ [Val (num_div lhs rhs)])
       \<and> evalLoop approx (tok ''^'' # e) (st @ [Val lhs, Val rhs])
           = evalLoop approx e (st @ [Val (num_pow approx lhs rhs)])" for e st lhs rhs
    using isOperator_symbols(1-5) [THEN evalLoop_operator, of approx e st lhs rhs]
    by (simp add: binop_def tok_eq_iff)
  have d: "toPostfix (infixChain a ps) = Some (postfixChain a ps)
           \<and> evaluateExpression approx (postfixChain a ps)
               = Val (foldl (\<lambda>lhs (o', b). binop approx o' lhs (Number b)) (Number a) ps)"
    if "\<not> isNaN a"
      and "\<forall>(o', b)\<in>set ps. isOperator o' \<and> operatorPrecendence o' = p \<and> \<not> isNaN b"
    for a ps p
  proof -
    from that(2) have "\<forall>(o', b)\<in>set ps. isOperator o' \<and> \<not> isNaN b"
      by auto
    from toPostfix_chain [OF that] evaluate_postfix_chain [OF that(1) this] show ?thesis
      by simp
  qed
  have f: "binop approx (tok ''+'') lhs rhs = num_add lhs rhs
       \<and> binop approx (tok ''-'') lhs rhs = num_sub lhs rhs
       \<and> binop approx (tok ''*'') lhs rhs = num_mul lhs rhs
       \<and> binop approx (tok ''/'') lhs rhs = num_div lhs rhs
       \<and> binop approx (tok ''^'') lhs rhs = num_pow approx lhs rhs" for lhs rhs
    by (simp add: binop_def tok_eq_iff)
  from a b c d f show ?thesis
    by blast
qed

theorem equal_precedence_left_to_right_witness:
  "\<forall>approx. toPostfix (map tok [''10'', ''-'', ''4'', ''+'', ''3'', ''-'', ''2''])
               = Some (map tok [''10'', ''4'', ''-'', ''3'', ''+'', ''2'', ''-''])
     \<and> evaluateExpression approx (map tok [''10'', ''4'', ''-'', ''3'', ''+'', ''2'', ''-''])
         = Val (Fin 7)"
proof (intro allI)
  fix approx
  let ?ps = "[(tok ''-'', tok ''4''), (tok ''+'', tok ''3''), (tok ''-'', tok ''2'')]"
  have n: "\<not> isNaN (tok ''10'')" "\<not> isNaN (tok ''4'')" "\<not> isNaN (tok ''3'')"
    "\<not> isNaN (tok ''2'')"
    by code_simp+
  have p: "operatorPrecendence (tok ''-'') = Some 1" "operatorPrecendence (tok ''+'') = Some 1"
    by code_simp+
  have h: "\<not> isNaN (tok ''10'')
           \<and> (\<forall>(o', b)\<in>set ?ps. isOperator o' \<and> operatorPrecendence o' = Some 1 \<and> \<not> isNaN b)"
    using n p isOperator_symbols by simp
  have v: "num_sub (num_add (num_sub (Number (tok ''10'')) (Number (tok ''4'')))
             (Number (tok ''3''))) (Number (tok ''2'')) = Fin 7"
    by code_simp
  from equal_precedence_left_to_right [of approx] h
  have "toPostfix (infixChain (tok ''10'') ?ps) = Some (postfixChain (tok ''10'') ?ps)
        \<and> evaluateExpression approx (postfixChain (tok ''10'') ?ps)
            = Val (foldl (\<lambda>lhs (o', b). binop approx o' lhs (Number b)) (Number (tok ''10'')) ?ps)"
    by blast
  then show "toPostfix (map tok [''10'', ''-'', ''4'', ''+'', ''3'', ''-'', ''2''])
               = Some (map tok [''10'', ''4'', ''-'', ''3'', ''+'', ''2'', ''-''])
     \<and> evaluateExpression approx (map tok [''10'', ''4'', ''-'', ''3'', ''+'', ''2'', ''-''])
         = Val (Fin 7)"
    using v by (simp add: infixChain_def postfixChain_def binop_def tok_eq_iff)
qed

text \<open>
  C7. Multiplication binds tighter than addition: \<open>3 + 4 * 2\<close> evaluates to 11. In
  general, for numeric operands \<open>a\<close>, \<open>b\<close> and \<open>c\<close>, the text \<open>a+b*c\<close> is
  converted to \<open>a b c * +\<close> and evaluates to \<open>a + (b * c)\<close>, and the text
  \<open>a*b+c\<close> is converted to \<open>a b * c +\<close> and evaluates to \<open>(a * b) + c\<close>.
\<close>

theorem multiplication_before_addition:
  "map_option (evaluateExpression approx) (toPostfix (tokenizeExpression (js ''3 + 4 * 2'')))
     = Some (Val (Fin 11))
   \<and> (\<forall>a b c.
         isOperandToken a \<and> isOperandToken b \<and> isOperandToken c
         \<and> \<not> isNaN (Val a) \<and> \<not> isNaN (Val b) \<and> \<not> isNaN (Val c)
         \<longrightarrow> toPostfix (tokenizeExpression (a @ js ''+'' @ b @ js ''*'' @ c))
               = Some [Val a, Val b, Val c, tok ''*'', tok ''+'']
             \<and> map_option (evaluateExpression approx)
                 (toPostfix (tokenizeExpression (a @ js ''+'' @ b @ js ''*'' @ c)))
               = Some (Val (num_add (stringToNumber a)
                              (num_mul (stringToNumber b) (stringToNumber c))))
             \<and> toPostfix (tokenizeExpression (a @ js ''*'' @ b @ js ''+'' @ c))
               = Some [Val a, Val b, tok ''*'', Val c, tok ''+'']
             \<and> map_option (evaluateExpression approx)
                 (toPostfix (tokenizeExpression (a @ js ''*'' @ b @ js ''+'' @ c)))
               = Some (Val (num_add (num_mul (stringToNumber a) (stringToNumber b))
                              (stringToNumber c))))"
proof -
  have x: "map_option (evaluateExpression approx) (toPostfix (tokenizeExpression (js ''3 + 4 * 2'')))
           = Some (Val (Fin 11))"
    by code_simp
  have s: "isSeparatorToken (js ''+'')" "isSeparatorToken (js ''*'')"
    by code_simp+
  have g: "\<not> geq (operatorPrecendence (tok ''+'')) (operatorPrecendence (tok ''*''))"
    "geq (operatorPrecendence (tok ''*'')) (operatorPrecendence (tok ''+''))"
    by code_simp+
  have y: "toPostfix (tokenizeExpression (a @ js ''+'' @ b @ js ''*'' @ c))
               = Some [Val a, Val b, Val c, tok ''*'', tok ''+'']
             \<and> map_option (evaluateExpression approx)
                 (toPostfix (tokenizeExpression (a @ js ''+'' @ b @ js ''*'' @ c)))
               = Some (Val (num_add (stringToNumber a)
                              (num_mul (stringToNumber b) (stringToNumber c))))
             \<and> toPostfix (tokenizeExpression (a @ js ''*'' @ b @ js ''+'' @ c))
               = Some [Val a, Val b, tok ''*'', Val c, tok ''+'']
             \<and> map_option (evaluateExpression approx)
                 (toPostfix (tokenizeExpression (a @ js ''*'' @ b @ js ''+'' @ c)))
               = Some (Val (num_add (num_mul (stringToNumber a) (stringToNumber b))
                              (stringToNumber c)))"
    if o: "isOperandToken a" "isOperandToken b" "isOperandToken c"
      and n: "\<not> isNaN (Val a)" "\<not> isNaN (Val b)" "\<not> isNaN (Val c)"
    for a b c
  proof -
    have "separated [a, js ''+'', b, js ''*'', c]" "separated [a, js ''*'', b, js ''+'', c]"
      using o s by simp_all
    from this [THEN tokenize_concat]
    have t: "tokenizeExpression (a @ js ''+'' @ b @ js ''*'' @ c)
             = [Val a, tok ''+'', Val b, tok ''*'', Val c]"
      "tokenizeExpression (a @ js ''*'' @ b @ js ''+'' @ c)
             = [Val a, tok ''*'', Val b, tok ''+'', Val c]"
      by (simp_all add: tok_def)
    note p = toPostfix_two_operators [OF n isOperator_symbols(1) isOperator_symbols(3)]
      toPostfix_two_operators [OF n isOperator_symbols(3) isOperator_symbols(1)]
    note e = evaluate_two_operators(2) [OF n isOperator_symbols(1) isOperator_symbols(3), of approx]
      evaluate_two_operators(1) [OF n isOperator_symbols(3) isOperator_symbols(1), of approx]
    from p e show ?thesis
      unfolding t by (simp add: g binop_def tok_eq_iff)
  qed
  from x y show ?thesis
    by blast
qed

theorem multiplication_before_addition_witness:
  "\<forall>approx. map_option (evaluateExpression approx) (toPostfix (tokenizeExpression (js ''4*2+3'')))
               = Some (Val (Fin 11))
     \<and> map_option (evaluateExpression approx) (toPostfix (tokenizeExpression (js ''4+2*3'')))
               = Some (Val (Fin 10))
     \<and> toPostfix (tokenizeExpression (js ''4*2+3'')) = Some (map tok [''4'', ''2'', ''*'', ''3'', ''+''])
     \<and> toPostfix (tokenizeExpression (js ''4+2*3'')) = Some (map tok [''4'', ''2'', ''3'', ''*'', ''+''])"
proof (intro allI)
  fix approx
  have h: "isOperandToken (js ''4'') \<and> isOperandToken (js ''2'') \<and> isOperandToken (js ''3'')
           \<and> \<not> isNaN (Val (js ''4'')) \<and> \<not> isNaN (Val (js ''2'')) \<and> \<not> isNaN (Val (js ''3''))"
    by code_simp
  have s: "js ''4'' @ js ''*'' @ js ''2'' @ js ''+'' @ js ''3'' = js ''4*2+3''"
    "js ''4'' @ js ''+'' @ js ''2'' @ js ''*'' @ js ''3'' = js ''4+2*3''"
    by (simp_all add: js_def)
  have v: "num_add (num_mul (stringToNumber (js ''4'')) (stringToNumber (js ''2'')))
             (stringToNumber (js ''3'')) = Fin 11"
    "num_add (stringToNumber (js ''4''))
       (num_mul (stringToNumber (js ''2'')) (stringToNumber (js ''3''))) = Fin 10"
    by code_simp+
  from multiplication_before_addition [of approx] h
  have "toPostfix (tokenizeExpression (js ''4'' @ js ''+'' @ js ''2'' @ js ''*'' @ js ''3''))
               = Some [Val (js ''4''), Val (js ''2''), Val (js ''3''), tok ''*'', tok ''+'']
             \<and> map_option (evaluateExpression approx)
                 (toPostfix (tokenizeExpression (js ''4'' @ js ''+'' @ js ''2'' @ js ''*'' @ js ''3'')))
               = Some (Val (num_add (stringToNumber (js ''4''))
                              (num_mul (stringToNumber (js ''2'')) (stringToNumber (js ''3'')))))
             \<and> toPostfix (tokenizeExpression (js ''4'' @ js ''*'' @ js ''2'' @ js ''+'' @ js ''3''))
               = Some [Val (js ''4''), Val (js ''2''), tok ''*'', Val (js ''3''), tok ''+'']
             \<and> map_option (evaluateExpression approx)
                 (toPostfix (tokenizeExpression (js ''4'' @ js ''*'' @ js ''2'' @ js ''+'' @ js ''3'')))
               = Some (Val (num_add (num_mul (stringToNumber (js ''4'')) (stringToNumber (js ''2'')))
                              (stringToNumber (js ''3''))))"
    by blast
  then show "map_option (evaluateExpression approx) (toPostfix (tokenizeExpression (js ''4*2+3'')))
               = Some (Val (Fin 11))
     \<and> map_option (evaluateExpression approx) (toPostfix (tokenizeExpression (js ''4+2*3'')))
               = Some (Val (Fin 10))
     \<and> toPostfix (tokenizeExpression (js ''4*2+3'')) = Some (map tok [''4'', ''2'', ''*'', ''3'', ''+''])
     \<and> toPostfix (tokenizeExpression (js ''4+2*3'')) = Some (map tok [''4'', ''2'', ''3'', ''*'', ''+''])"
    unfolding s v by (auto simp: tok_def)
qed

text \<open>
  C8. Parentheses override precedence: \<open>(3 + 4) * 2\<close> evaluates to 14.
\<close>

theorem grouping_overrides_precedence:
  "map_option (evaluateExpression approx) (toPostfix (tokenizeExpression (js ''(3 + 4) * 2'')))
     = Some (Val (Fin 14))"
  by code_simp

end
